theory Spec2Isabelle
  imports Complex_Main "HOL-Library.Multiset"
begin

section \<open>Python values used by the command searcher\<close>

text \<open>
  The development embeds \<^verbatim>\<open>search_algorithm.py\<close>: the class \<^verbatim>\<open>MicroLanguageModel\<close> and
  the class \<^verbatim>\<open>CommandSearcher\<close>.

  Conventions of the embedding.
  \<^item> A Python \<^verbatim>\<open>str\<close> is a \<open>string\<close>; a character stands for the code point of the same
    number, so the text covered is the one with code points below 256.
  \<^item> A Python \<^verbatim>\<open>float\<close> (and a numpy \<^verbatim>\<open>float64\<close>) is a \<open>real\<close>: rounding is not part of
    the model. The one exception is the attention weight of the language model, the
    quotient of \<^verbatim>\<open>np.exp\<close> of a score by itself: there \<^verbatim>\<open>np.exp\<close> leaves the range of
    \<^verbatim>\<open>float64\<close> for scores of large magnitude and the quotient is NaN, which the model
    keeps (\<open>np_exp\<close>, \<open>np_divide\<close>).
  \<^item> A raised exception is the left injection of a sum type.
  \<^item> A Python \<^verbatim>\<open>set\<close> is the list of its elements, without repetition, in the order in
    which the interpreter iterates over it. That order is not fixed by the language: it is
    taken from the parameters \<open>str_order\<close> and \<open>idx_order\<close> below, and the theorems hold
    for every choice of them.
  \<^item> The libraries the source calls (\<^verbatim>\<open>spellchecker\<close>, \<^verbatim>\<open>rapidfuzz\<close>, \<^verbatim>\<open>numpy.random\<close>,
    \<^verbatim>\<open>heapq\<close>) are not part of the repository. The values they compute from their own
    data (the suggested correction, the similarity of two words, the random draws) are
    parameters; their control flow (adding words, picking the best choice, pushing on a
    heap) is written out.
\<close>

datatype error = TypeError | AttributeError | IndexError | ZeroDivisionError

record env =
  str_order :: "string list \<Rightarrow> string list"
  idx_order :: "nat list \<Rightarrow> nat list"
  spell_correction :: "string set \<Rightarrow> string \<Rightarrow> string option"
  WRatio :: "string \<Rightarrow> string \<Rightarrow> real"
  randn_embeddings :: "nat \<Rightarrow> nat \<Rightarrow> real"
  randn_attention :: "nat \<Rightarrow> real"
  randn_classifier :: "nat \<Rightarrow> nat \<Rightarrow> real"

subsection \<open>Sets\<close>

text \<open>
  \<open>str_set env xs\<close> is the set built from the elements \<open>xs\<close>, in its iteration order.
  The order proposed by the parameter is used when it enumerates the elements of \<open>xs\<close>
  once each; otherwise the elements come in the order of their last occurrence.
\<close>

definition str_set :: "env \<Rightarrow> string list \<Rightarrow> string list" where
  "str_set env xs =
     (let ys = str_order env (remdups xs)
      in if distinct ys \<and> set ys = set xs then ys else remdups xs)"

definition idx_set :: "env \<Rightarrow> nat list \<Rightarrow> nat list" where
  "idx_set env xs =
     (let ys = idx_order env (remdups xs)
      in if distinct ys \<and> set ys = set xs then ys else remdups xs)"

subsection \<open>Strings\<close>

text \<open>The characters \<^verbatim>\<open>str.split()\<close> and \<^verbatim>\<open>str.strip()\<close> treat as whitespace.\<close>

definition is_space :: "char \<Rightarrow> bool" where
  "is_space c = ((of_char c :: nat) \<in> set [9, 10, 11, 12, 13, 28, 29, 30, 31, 32, 133, 160])"

text \<open>\<^verbatim>\<open>s.strip(chars)\<close>: drop the leading and the trailing characters that are in \<open>chars\<close>.\<close>

definition strip_chars :: "string \<Rightarrow> string \<Rightarrow> string" where
  "strip_chars chars s =
     rev (dropWhile (\<lambda>c. c \<in> set chars) (rev (dropWhile (\<lambda>c. c \<in> set chars) s)))"

text \<open>\<^verbatim>\<open>s.strip()\<close>: drop the leading and the trailing whitespace.\<close>

definition strip :: "string \<Rightarrow> string" where
  "strip s = rev (dropWhile is_space (rev (dropWhile is_space s)))"

text \<open>
  \<^verbatim>\<open>s.split()\<close>: the maximal runs of characters that are not whitespace. \<open>cur\<close> is the
  run being read, reversed.
\<close>

fun split_from :: "string \<Rightarrow> string \<Rightarrow> string list" where
  "split_from cur [] = (if cur = [] then [] else [rev cur])"
| "split_from cur (c # cs) =
     (if is_space c
      then (if cur = [] then split_from [] cs else rev cur # split_from [] cs)
      else split_from (c # cur) cs)"

definition split :: "string \<Rightarrow> string list" where
  "split s = split_from [] s"

text \<open>\<^verbatim>\<open>s.lower()\<close> on code points below 256.\<close>

definition lower_char :: "char \<Rightarrow> char" where
  "lower_char c =
     (let n = (of_char c :: nat)
      in if (65 \<le> n \<and> n \<le> 90) \<or> (192 \<le> n \<and> n \<le> 222 \<and> n \<noteq> 215)
         then char_of (n + 32) else c)"

definition lower :: "string \<Rightarrow> string" where
  "lower s = map lower_char s"

text \<open>
  A command is a \<^verbatim>\<open>dict\<close> from column names to text; \<^verbatim>\<open>cmd.get(k, '')\<close> is
  \<open>dict_get cmd k []\<close>.
\<close>

type_synonym command = "(string \<times> string) list"

definition dict_get :: "command \<Rightarrow> string \<Rightarrow> string \<Rightarrow> string" where
  "dict_get cmd k d = (case map_of cmd k of None \<Rightarrow> d | Some v \<Rightarrow> v)"

section \<open>MicroLanguageModel\<close>

record MicroLanguageModel =
  embeddings :: "real list list"
  attention_weights :: "real list"
  classifier :: "real list list"

text \<open>
  \<^verbatim>\<open>__init__\<close>: three arrays of shapes \<open>vocab_size \<times> embed_size\<close>, \<open>embed_size\<close> and
  \<open>embed_size \<times> 3\<close>, each entry a standard normal draw times \<open>0.01\<close>.
\<close>

definition MicroLanguageModel_init :: "env \<Rightarrow> nat \<Rightarrow> nat \<Rightarrow> MicroLanguageModel" where
  "MicroLanguageModel_init env vocab_size embed_size =
     \<lparr> embeddings =
         map (\<lambda>i. map (\<lambda>j. randn_embeddings env i j * 0.01) [0..<embed_size]) [0..<vocab_size],
       attention_weights = map (\<lambda>j. randn_attention env j * 0.01) [0..<embed_size],
       classifier =
         map (\<lambda>j. map (\<lambda>k. randn_classifier env j k * 0.01) [0..<3]) [0..<embed_size] \<rparr>"

text \<open>\<^verbatim>\<open>np.dot\<close> of two vectors.\<close>

definition np_dot :: "real list \<Rightarrow> real list \<Rightarrow> real" where
  "np_dot xs ys = sum_list (map2 (*) xs ys)"

text \<open>\<^verbatim>\<open>np.linalg.norm\<close> of a vector.\<close>

definition np_norm :: "real list \<Rightarrow> real" where
  "np_norm xs = sqrt (sum_list (map (\<lambda>x. x * x) xs))"

text \<open>\<^verbatim>\<open>np.mean(rows, axis=0)\<close> of a non-empty list of rows of one width.\<close>

definition np_mean_rows :: "real list list \<Rightarrow> real list" where
  "np_mean_rows rows =
     map (\<lambda>j. sum_list (map (\<lambda>row. row ! j) rows) / real (length rows))
         [0..<length (hd rows)]"

text \<open>\<^verbatim>\<open>np.dot\<close> of a vector and a matrix with three columns.\<close>

definition np_dot_matrix :: "real list \<Rightarrow> real list list \<Rightarrow> real list" where
  "np_dot_matrix v m = map (\<lambda>k. sum_list (map2 (\<lambda>x row. x * row ! k) v m)) [0..<3]"

definition sigmoid :: "real \<Rightarrow> real" where
  "sigmoid x = 1 / (1 + exp (- x))"

text \<open>The rows \<^verbatim>\<open>self.embeddings[idx % len(self.embeddings)]\<close>; \<^verbatim>\<open>%\<close> raises on a table
  without rows.\<close>

definition embedding_rows :: "MicroLanguageModel \<Rightarrow> int list \<Rightarrow> error + real list list" where
  "embedding_rows m word_indices =
     (if embeddings m = [] then Inl ZeroDivisionError
      else Inr (map (\<lambda>idx. embeddings m ! nat (idx mod int (length (embeddings m))))
                    word_indices))"

text \<open>
  The values \<^verbatim>\<open>np.exp\<close> and a division can give in \<^verbatim>\<open>float64\<close>: a number, infinity, or
  NaN.
\<close>

datatype float64 = Finite real | PosInf | NaN

text \<open>
  The bounds of \<^verbatim>\<open>float64\<close>: a result rounds to infinity from the midpoint between the
  largest number, \<open>2^1024 - 2^971\<close>, and \<open>2^1024\<close> on, and to zero up to half the smallest
  positive number, \<open>2^-1074\<close>.
\<close>

definition float64_overflow :: real where
  "float64_overflow = 2 ^ 1024 - 2 ^ 970"

definition float64_underflow :: real where
  "float64_underflow = 1 / 2 ^ 1075"

text \<open>\<^verbatim>\<open>np.exp\<close>: infinity or zero beyond the bounds, the exponential in between.\<close>

definition np_exp :: "real \<Rightarrow> float64" where
  "np_exp x =
     (if float64_overflow \<le> exp x then PosInf
      else if exp x \<le> float64_underflow then Finite 0
      else Finite (exp x))"

text \<open>
  The division of \<^verbatim>\<open>float64\<close> values that are not negative: \<^verbatim>\<open>inf / inf\<close> and \<^verbatim>\<open>0 / 0\<close>
  are NaN.
\<close>

fun np_divide :: "float64 \<Rightarrow> float64 \<Rightarrow> float64" where
  "np_divide (Finite a) (Finite b) =
     (if b = 0 then (if a = 0 then NaN else PosInf) else Finite (a / b))"
| "np_divide (Finite a) PosInf = Finite 0"
| "np_divide PosInf (Finite b) = PosInf"
| "np_divide PosInf PosInf = NaN"
| "np_divide NaN y = NaN"
| "np_divide x NaN = NaN"

text \<open>\<^verbatim>\<open>np.sum\<close> of a scalar is the scalar.\<close>

definition np_sum_scalar :: "float64 \<Rightarrow> float64" where
  "np_sum_scalar x = x"

text \<open>The attention weight: the softmax of the single score.\<close>

definition attention :: "real \<Rightarrow> float64" where
  "attention attention_scores =
     np_divide (np_exp attention_scores) (np_sum_scalar (np_exp attention_scores))"

text \<open>
  The result \<open>None\<close> stands for the array \<^verbatim>\<open>[nan nan nan]\<close>: with a weight that is NaN
  every product \<^verbatim>\<open>embedded * attention_weights\<close> is NaN, and so are the three sums with
  the classifier and their sigmoids. The weight is never infinite (lemma
  \<open>attention_cases\<close>). The local variable \<^verbatim>\<open>attention_weights\<close> of the source, which
  hides the field of that name, is \<open>weight\<close> here.
\<close>

definition forward :: "MicroLanguageModel \<Rightarrow> int list \<Rightarrow> error + real list option" where
  "forward m word_indices =
     (if word_indices = [] then Inr (Some [0.33, 0.33, 0.33])
      else case embedding_rows m word_indices of
        Inl e \<Rightarrow> Inl e
      | Inr rows \<Rightarrow>
          (let embedded = np_mean_rows rows;
               attention_scores = np_dot embedded (attention_weights m)
           in case attention attention_scores of
                Finite weight \<Rightarrow>
                  (let features = np_dot_matrix (map (\<lambda>x. x * weight) embedded)
                                                (classifier m)
                   in Inr (Some (map sigmoid features)))
              | _ \<Rightarrow> Inr None))"

section \<open>CommandSearcher\<close>

record CommandSearcher =
  word_index :: "string \<rightharpoonup> nat list"
  command_keywords :: "string list list"
  known_words :: "string set"
  all_words :: "string list"
  word_to_idx :: "string \<rightharpoonup> nat"
  lm :: "MicroLanguageModel option"

text \<open>
  \<open>known_words\<close> is the word list of the \<^verbatim>\<open>SpellChecker\<close> object. \<^verbatim>\<open>__init__\<close> creates
  the object with the dictionary the library ships, here the parameter \<open>dictionary\<close>.
\<close>

definition CommandSearcher_init :: "string set \<Rightarrow> CommandSearcher" where
  "CommandSearcher_init dictionary =
     \<lparr> word_index = Map.empty, command_keywords = [], known_words = dictionary,
       all_words = [], word_to_idx = Map.empty, lm = None \<rparr>"

text \<open>\<^verbatim>\<open>word_frequency.load_words(words)\<close> adds the words to the word list.\<close>

definition load_words :: "string list \<Rightarrow> string set \<Rightarrow> string set" where
  "load_words words known = known \<union> set words"

subsection \<open>Tokenizer\<close>

definition punctuation :: string where
  "punctuation = ''.,!?()[]{}''"

definition tokenize :: "env \<Rightarrow> string \<Rightarrow> string list" where
  "tokenize env text =
     (if text = [] then []
      else str_set env
             (map (\<lambda>word. lower (strip_chars punctuation word))
                  (filter (\<lambda>word. length (strip_chars punctuation word) > 2) (split text))))"

definition search_text :: "command \<Rightarrow> string" where
  "search_text cmd =
     dict_get cmd ''intent'' [] @ '' '' @ dict_get cmd ''command'' [] @ '' ''
       @ dict_get cmd ''description'' []"

subsection \<open>Index builder\<close>

text \<open>The first loop of \<^verbatim>\<open>build_index\<close>: \<^verbatim>\<open>vocab.update\<close> with the tokens of each command.\<close>

fun build_vocab :: "env \<Rightarrow> string list \<Rightarrow> command list \<Rightarrow> string list" where
  "build_vocab env vocab [] = vocab"
| "build_vocab env vocab (cmd # commands) =
     build_vocab env (str_set env (vocab @ tokenize env (search_text cmd))) commands"

text \<open>The dict comprehension over \<^verbatim>\<open>enumerate(self.all_words)\<close>.\<close>

fun enumerate_words :: "(string \<rightharpoonup> nat) \<Rightarrow> nat \<Rightarrow> string list \<Rightarrow> (string \<rightharpoonup> nat)" where
  "enumerate_words d idx [] = d"
| "enumerate_words d idx (word # ws) = enumerate_words (d(word \<mapsto> idx)) (Suc idx) ws"

text \<open>\<^verbatim>\<open>self.word_index[word].add(idx)\<close> on a \<^verbatim>\<open>defaultdict(set)\<close>, for each word.\<close>

fun index_words :: "env \<Rightarrow> (string \<rightharpoonup> nat list) \<Rightarrow> nat \<Rightarrow> string list \<Rightarrow> (string \<rightharpoonup> nat list)" where
  "index_words env wi idx [] = wi"
| "index_words env wi idx (word # ws) =
     index_words env
       (wi(word \<mapsto> idx_set env ((case wi word of None \<Rightarrow> [] | Some s \<Rightarrow> s) @ [idx]))) idx ws"

text \<open>The second loop of \<^verbatim>\<open>build_index\<close>, over \<^verbatim>\<open>enumerate(commands)\<close>.\<close>

fun index_commands ::
  "env \<Rightarrow> (string \<rightharpoonup> nat list) \<times> string list list \<Rightarrow> nat \<Rightarrow> command list
     \<Rightarrow> (string \<rightharpoonup> nat list) \<times> string list list" where
  "index_commands env (wi, kws) idx [] = (wi, kws)"
| "index_commands env (wi, kws) idx (cmd # commands) =
     (let words = tokenize env (search_text cmd)
      in index_commands env (index_words env wi idx words, kws @ [str_set env words])
           (Suc idx) commands)"

definition build_index :: "env \<Rightarrow> CommandSearcher \<Rightarrow> command list \<Rightarrow> CommandSearcher" where
  "build_index env self commands =
     (let words = build_vocab env [] commands;
          (wi, kws) = index_commands env (Map.empty, []) 0 commands
      in \<lparr> word_index = wi,
           command_keywords = kws,
           known_words = load_words words (known_words self),
           all_words = words,
           word_to_idx = enumerate_words Map.empty 0 words,
           lm = Some (MicroLanguageModel_init env (length words) 16) \<rparr>)"

subsection \<open>Spelling correction\<close>

text \<open>
  \<^verbatim>\<open>process.extractOne(query, choices, scorer)\<close>: the first choice of the highest score, with
  its score and position, and \<^verbatim>\<open>None\<close> when there is no choice. The loop stops at a score
  of 100.
\<close>

fun extractOne_from ::
  "(string \<Rightarrow> real) \<Rightarrow> (string \<times> real \<times> nat) option \<Rightarrow> nat \<Rightarrow> string list
     \<Rightarrow> (string \<times> real \<times> nat) option" where
  "extractOne_from scorer result key [] = result"
| "extractOne_from scorer result key (choice # choices) =
     (let score = scorer choice;
          score_cutoff = (case result of None \<Rightarrow> 0 | Some (_, best, _) \<Rightarrow> best);
          result' = (if score \<ge> score_cutoff \<and>
                        (case result of None \<Rightarrow> True | Some (_, best, _) \<Rightarrow> score > best)
                     then Some (choice, score, key) else result)
      in if score = 100 then result'
         else extractOne_from scorer result' (Suc key) choices)"

definition extractOne :: "env \<Rightarrow> string \<Rightarrow> string list \<Rightarrow> (string \<times> real \<times> nat) option" where
  "extractOne env query choices = extractOne_from (WRatio env query) None 0 choices"

text \<open>
  The last two lines of \<^verbatim>\<open>_correct_spelling\<close>. Unpacking \<^verbatim>\<open>None\<close> into three names
  raises \<^verbatim>\<open>TypeError\<close>.
\<close>

definition fuzzy_correction :: "env \<Rightarrow> CommandSearcher \<Rightarrow> string \<Rightarrow> error + string" where
  "fuzzy_correction env self word =
     (case extractOne env word (all_words self) of
        None \<Rightarrow> Inl TypeError
      | Some (best_match, score, _) \<Rightarrow> Inr (if score > 80 then best_match else word))"

definition correct_spelling :: "env \<Rightarrow> CommandSearcher \<Rightarrow> string \<Rightarrow> error + string" where
  "correct_spelling env self word =
     (if word \<in> dom (word_to_idx self) then Inr word
      else case spell_correction env (known_words self) word of
        None \<Rightarrow> fuzzy_correction env self word
      | Some correction \<Rightarrow>
          if correction \<noteq> [] \<and> correction \<in> dom (word_to_idx self) then Inr correction
          else fuzzy_correction env self word)"

subsection \<open>Similarity of the language model\<close>

definition get_word_indices :: "CommandSearcher \<Rightarrow> string list \<Rightarrow> int list" where
  "get_word_indices self words =
     List.map_filter (\<lambda>word. map_option int (word_to_idx self word)) words"

definition cosine :: "real list \<Rightarrow> real list \<Rightarrow> real" where
  "cosine u v = np_dot u v / (np_norm u * np_norm v + 1 / 1000000)"

text \<open>
  The result \<open>None\<close> stands for NaN: the similarity of two feature arrays of which one is
  \<^verbatim>\<open>[nan nan nan]\<close>.
\<close>

definition analyze_with_lm ::
  "CommandSearcher \<Rightarrow> string list \<Rightarrow> string list \<Rightarrow> error + real option" where
  "analyze_with_lm self query_words cmd_words =
     (let query_indices = get_word_indices self query_words;
          cmd_indices = get_word_indices self cmd_words
      in case lm self of
           None \<Rightarrow> Inl AttributeError
         | Some m \<Rightarrow>
             (case forward m query_indices of
                Inl e \<Rightarrow> Inl e
              | Inr query_features \<Rightarrow>
                  (case forward m cmd_indices of
                     Inl e \<Rightarrow> Inl e
                   | Inr cmd_features \<Rightarrow>
                       (case (query_features, cmd_features) of
                          (Some u, Some v) \<Rightarrow> Inr (Some ((cosine u v + 1) / 2))
                        | _ \<Rightarrow> Inr None))))"

subsection \<open>Search\<close>

text \<open>The first loop of \<^verbatim>\<open>search\<close>: the corrected tokens that are not empty.\<close>

fun correct_words :: "env \<Rightarrow> CommandSearcher \<Rightarrow> string list \<Rightarrow> error + string list" where
  "correct_words env self [] = Inr []"
| "correct_words env self (word # ws) =
     (case correct_spelling env self word of
        Inl e \<Rightarrow> Inl e
      | Inr corrected \<Rightarrow>
          (case correct_words env self ws of
             Inl e \<Rightarrow> Inl e
           | Inr query_words \<Rightarrow>
               Inr (if corrected \<noteq> [] then corrected # query_words else query_words)))"

text \<open>The second loop: \<^verbatim>\<open>candidate_indices.update(self.word_index.get(word, set()))\<close>.\<close>

fun find_candidates :: "env \<Rightarrow> CommandSearcher \<Rightarrow> nat list \<Rightarrow> string list \<Rightarrow> nat list" where
  "find_candidates env self candidate_indices [] = candidate_indices"
| "find_candidates env self candidate_indices (word # ws) =
     find_candidates env self
       (idx_set env (candidate_indices
                     @ (case word_index self word of None \<Rightarrow> [] | Some s \<Rightarrow> s))) ws"

text \<open>\<^verbatim>\<open>len(set(query_words) & cmd_words)\<close>.\<close>

definition matched_words :: "string list \<Rightarrow> string list \<Rightarrow> nat" where
  "matched_words query_words cmd_words = card (set query_words \<inter> set cmd_words)"

definition coverage :: "string list \<Rightarrow> string list \<Rightarrow> real" where
  "coverage query_words cmd_words =
     real (matched_words query_words cmd_words) / real (length query_words)"

definition density :: "string list \<Rightarrow> string list \<Rightarrow> real" where
  "density query_words cmd_words =
     (if cmd_words \<noteq> []
      then real (matched_words query_words cmd_words) / real (length cmd_words) else 0)"

definition combined_score :: "real \<Rightarrow> real \<Rightarrow> real \<Rightarrow> real" where
  "combined_score lm_score cov dens = lm_score * 0.6 + cov * 0.3 + dens * 0.1"

text \<open>Python compares the heap entries \<^verbatim>\<open>(-score, idx)\<close> as tuples.\<close>

definition tuple_less :: "real \<times> nat \<Rightarrow> real \<times> nat \<Rightarrow> bool" where
  "tuple_less a b = (fst a < fst b \<or> (fst a = fst b \<and> snd a < snd b))"

text \<open>\<^verbatim>\<open>heapq._siftdown(heap, 0, pos)\<close>, with \<open>newitem\<close> the entry taken from \<open>pos\<close>.\<close>

fun siftdown :: "(real \<times> nat) list \<Rightarrow> real \<times> nat \<Rightarrow> nat \<Rightarrow> (real \<times> nat) list" where
  "siftdown heap newitem pos =
     (if pos > 0 \<and> tuple_less newitem (heap ! ((pos - 1) div 2))
      then siftdown (heap[pos := heap ! ((pos - 1) div 2)]) newitem ((pos - 1) div 2)
      else heap[pos := newitem])"

declare siftdown.simps [simp del]

definition heappush :: "(real \<times> nat) list \<Rightarrow> real \<times> nat \<Rightarrow> (real \<times> nat) list" where
  "heappush heap item = siftdown (heap @ [item]) item (length heap)"

text \<open>
  The third loop: score each candidate and push the ones above the threshold. With a
  similarity that is NaN the score is NaN and \<^verbatim>\<open>score > 0.3\<close> is false.
\<close>

fun score_candidates ::
  "CommandSearcher \<Rightarrow> string list \<Rightarrow> (real \<times> nat) list \<Rightarrow> nat list
     \<Rightarrow> error + (real \<times> nat) list" where
  "score_candidates self query_words scored_results [] = Inr scored_results"
| "score_candidates self query_words scored_results (idx # rest) =
     (if idx < length (command_keywords self)
      then (let cmd_words = command_keywords self ! idx
            in case analyze_with_lm self query_words cmd_words of
                 Inl e \<Rightarrow> Inl e
               | Inr None \<Rightarrow> score_candidates self query_words scored_results rest
               | Inr (Some lm_score) \<Rightarrow>
                   (let score = combined_score lm_score (coverage query_words cmd_words)
                                  (density query_words cmd_words)
                    in score_candidates self query_words
                         (if score > 0.3 then heappush scored_results (- score, idx)
                          else scored_results) rest))
      else Inl IndexError)"

text \<open>The list comprehension of the \<^verbatim>\<open>return\<close>: \<^verbatim>\<open>(commands[idx], -score)\<close>.\<close>

fun top_results :: "command list \<Rightarrow> (real \<times> nat) list \<Rightarrow> error + (command \<times> real) list" where
  "top_results commands [] = Inr []"
| "top_results commands ((score, idx) # rest) =
     (if idx < length commands
      then (case top_results commands rest of
              Inl e \<Rightarrow> Inl e
            | Inr results \<Rightarrow> Inr ((commands ! idx, - score) # results))
      else Inl IndexError)"

definition search ::
  "env \<Rightarrow> CommandSearcher \<Rightarrow> string \<Rightarrow> command list \<Rightarrow> error + (command \<times> real) list" where
  "search env self query commands =
     (if strip query = [] then Inr []
      else case correct_words env self (tokenize env query) of
        Inl e \<Rightarrow> Inl e
      | Inr query_words \<Rightarrow>
          if query_words = [] then Inr []
          else (case score_candidates self query_words []
                       (find_candidates env self [] query_words) of
                  Inl e \<Rightarrow> Inl e
                | Inr scored_results \<Rightarrow>
                    top_results commands (take 3 (sort_key fst scored_results))))"

section \<open>Reference definitions\<close>

text \<open>
  The coverage ratio as the specification words it: the distinct query tokens found in the
  keyword set, over the number of distinct query tokens.
\<close>

definition coverage_spec :: "string list \<Rightarrow> string list \<Rightarrow> real" where
  "coverage_spec query_words cmd_words =
     real (card (set query_words \<inter> set cmd_words)) / real (card (set query_words))"





text \<open>
  The two readings of "sorted by descending score": each score greater than the next one,
  and each score greater than or equal to the next one.
\<close>

definition strictly_descending :: "real list \<Rightarrow> bool" where
  "strictly_descending scores = sorted_wrt (\<lambda>a b. a > b) scores"

definition descending :: "real list \<Rightarrow> bool" where
  "descending scores = sorted_wrt (\<lambda>a b. a \<ge> b) scores"

text \<open>A heap entry \<open>(-score, idx)\<close> whose score lies in \<open>(0.3, 1]\<close>.\<close>

definition score_ok :: "real \<times> nat \<Rightarrow> bool" where
  "score_ok e = (3 / 10 < - fst e \<and> - fst e \<le> 1)"

text \<open>
  The inverted index agrees with the keyword sets: a position listed under a word is a
  position of the catalog, and the word is one of the keywords stored there.
\<close>

definition index_ok :: "(string \<rightharpoonup> nat list) \<Rightarrow> string list list \<Rightarrow> bool" where
  "index_ok wi kws =
     (\<forall>w s i. wi w = Some s \<longrightarrow> i \<in> set s \<longrightarrow> i < length kws \<and> w \<in> set (kws ! i))"

text \<open>
  The invariant of the loop of \<open>extractOne_from\<close>: \<open>result\<close> is a choice of highest score
  among the choices \<open>seen\<close>.
\<close>

definition best_so_far ::
  "(string \<Rightarrow> real) \<Rightarrow> (string \<times> real \<times> nat) option \<Rightarrow> string set \<Rightarrow> bool" where
  "best_so_far scorer result seen =
     (case result of
        None \<Rightarrow> seen = {}
      | Some (best, score, key) \<Rightarrow>
          best \<in> seen \<and> score = scorer best \<and> (\<forall>c \<in> seen. scorer c \<le> score))"

section \<open>A small catalog\<close>

text \<open>
  Concrete values on which the theorems below are instantiated: sets iterate in the order
  \<open>remdups\<close> leaves, the spelling dictionary corrects \<^verbatim>\<open>netowrk\<close> to \<^verbatim>\<open>network\<close> when it
  knows that word, the similarity is 100 on equal words and 0 otherwise, and every random
  draw is 0. The catalog has two commands with the same keywords.
\<close>

definition example_env :: env where
  "example_env =
     \<lparr> str_order = (\<lambda>xs. xs), idx_order = (\<lambda>xs. xs),
       spell_correction =
         (\<lambda>known w. if w = ''netowrk'' \<and> ''network'' \<in> known then Some ''network'' else None),
       WRatio = (\<lambda>a b. if a = b then 100 else 0),
       randn_embeddings = (\<lambda>i j. 0), randn_attention = (\<lambda>j. 0),
       randn_classifier = (\<lambda>j k. 0) \<rparr>"

definition example_catalog :: "command list" where
  "example_catalog =
     [[(''intent'', ''scan network''), (''command'', ''nmap''), (''description'', '''')],
      [(''intent'', ''scan network''), (''command'', ''nmap -A''), (''description'', '''')]]"

definition example_index :: CommandSearcher where
  "example_index = build_index example_env (CommandSearcher_init {}) example_catalog"

definition example_lm_score :: real where
  "example_lm_score = (750000 / 750001 + 1) / 2"

definition example_score :: real where
  "example_score = combined_score example_lm_score 1 (1 / 3)"

text \<open>The score of the same commands when the coverage is one half.\<close>

definition example_typo_score :: real where
  "example_typo_score = combined_score example_lm_score (1 / 2) (1 / 3)"



section \<open>Sets, strings and the heap\<close>

lemmas string_defs = strip_def is_space_def tokenize_def split_def strip_chars_def
  punctuation_def lower_def lower_char_def search_text_def dict_get_def

lemma str_set_set [simp]: "set (str_set env xs) = set xs"
  by (simp add: str_set_def Let_def)

lemma str_set_distinct [simp]: "distinct (str_set env xs)"
  by (simp add: str_set_def Let_def)

lemma idx_set_set [simp]: "set (idx_set env xs) = set xs"
  by (simp add: idx_set_def Let_def)

lemma idx_set_distinct [simp]: "distinct (idx_set env xs)"
  by (simp add: idx_set_def Let_def)

lemma distinct_singleton: "distinct ys \<Longrightarrow> set ys = {x} \<Longrightarrow> ys = [x]"
  by (cases ys) (auto simp: subset_singleton_iff dest!: subset_singletonD)

lemma str_set_single: "str_set env [x] = [x]"
  by (auto simp: str_set_def Let_def distinct_singleton)

lemma str_set_nil: "str_set env [] = []"
  by (auto simp: str_set_def Let_def)

lemma siftdown_mset:
  "pos < length heap \<Longrightarrow> mset (siftdown heap newitem pos) = mset (heap[pos := newitem])"
proof (induction heap newitem pos rule: siftdown.induct)
  case (1 heap newitem pos)
  let ?p = "(pos - 1) div 2"
  show ?case
  proof (cases "pos > 0 \<and> tuple_less newitem (heap ! ?p)")
    case True
    then have p: "?p < pos" by auto
    have "mset (siftdown heap newitem pos) = mset ((heap[pos := heap ! ?p])[?p := newitem])"
      using True 1 p by (subst siftdown.simps) simp
    also have "\<dots> = mset (heap[pos := newitem])"
      using mset_swap [of ?p "heap[pos := newitem]" pos] p 1(2)
      by (simp add: list_update_swap)
    finally show ?thesis .
  next
    case False
    then show ?thesis by (subst siftdown.simps) auto
  qed
qed

lemma heappush_mset: "mset (heappush heap item) = add_mset item (mset heap)"
  by (simp add: heappush_def siftdown_mset)

lemma heappush_set: "set (heappush heap item) = insert item (set heap)"
  using heappush_mset [of heap item] by (metis set_mset_add_mset_insert set_mset_mset)

section \<open>Bounds on the features\<close>

lemma sum_squares_nonneg: "0 \<le> sum_list (map (\<lambda>x. x * x) (xs :: real list))"
  by (induction xs) auto

lemma cs_step:
  fixes x y s a b :: real
  assumes "s * s \<le> a * b" "0 \<le> a" "0 \<le> b"
  shows "(x * y + s) * (x * y + s) \<le> (x * x + a) * (y * y + b)"
proof -
  let ?r = "x * x * b + y * y * a"
  have r0: "0 \<le> ?r" using assms by simp
  have "(2 * x * y * s)\<^sup>2 = 4 * (x * x) * (y * y) * (s * s)"
    by (simp add: power2_eq_square)
  also have "\<dots> \<le> 4 * (x * x) * (y * y) * (a * b)"
    using assms(1) by (intro mult_left_mono) auto
  also have "\<dots> \<le> ?r\<^sup>2"
  proof -
    have "0 \<le> (x * x * b - y * y * a)\<^sup>2" by simp
    then show ?thesis by (simp add: power2_eq_square algebra_simps)
  qed
  finally have "2 * x * y * s \<le> ?r"
    using r0 by (rule power2_le_imp_le)
  then show ?thesis using assms(1) by (simp add: algebra_simps)
qed

lemma cauchy_schwarz_squares:
  "sum_list (map2 (*) xs ys) * sum_list (map2 (*) xs ys)
     \<le> sum_list (map (\<lambda>x. x * x) xs) * sum_list (map (\<lambda>x. x * x) (ys :: real list))"
proof (induction xs ys rule: list_induct2')
  case (4 x xs y ys)
  show ?case
    using cs_step [OF 4 sum_squares_nonneg sum_squares_nonneg, of x y] by simp
qed (simp_all add: sum_squares_nonneg)

lemma np_dot_le_norms: "np_dot u v \<le> np_norm u * np_norm v"
proof -
  have "\<bar>np_dot u v\<bar> = sqrt (np_dot u v * np_dot u v)" by simp
  also have "\<dots> \<le> sqrt (sum_list (map (\<lambda>x. x * x) u) * sum_list (map (\<lambda>x. x * x) v))"
    unfolding np_dot_def using cauchy_schwarz_squares [of u v] by (simp only: real_sqrt_le_iff)
  also have "\<dots> = np_norm u * np_norm v"
    by (simp add: np_norm_def real_sqrt_mult)
  finally show ?thesis by linarith
qed

lemma np_norm_nonneg: "0 \<le> np_norm u"
  by (simp add: np_norm_def sum_squares_nonneg)

lemma cosine_le_1: "cosine u v \<le> 1"
proof -
  have "0 \<le> np_norm u * np_norm v" by (simp add: np_norm_nonneg)
  then show ?thesis
    unfolding cosine_def using np_dot_le_norms [of u v] by (simp add: divide_le_eq)
qed

lemma analyze_with_lm_le_1:
  assumes "analyze_with_lm self qw cw = Inr (Some s)"
  shows "s \<le> 1"
proof -
  from assms obtain u v where "cosine u v + 1 = s * 2"
    by (auto simp: analyze_with_lm_def Let_def split: option.splits sum.splits)
  then show ?thesis using cosine_le_1 [of u v] by linarith
qed

lemma matched_words_le_query: "matched_words qw cw \<le> length qw"
proof -
  have "card (set qw \<inter> set cw) \<le> card (set qw)" by (simp add: card_mono)
  also have "\<dots> \<le> length qw" by (rule card_length)
  finally show ?thesis by (simp add: matched_words_def)
qed

lemma matched_words_le_cmd: "matched_words qw cw \<le> length cw"
proof -
  have "card (set qw \<inter> set cw) \<le> card (set cw)" by (simp add: card_mono)
  also have "\<dots> \<le> length cw" by (rule card_length)
  finally show ?thesis by (simp add: matched_words_def)
qed

lemma coverage_range: "0 \<le> coverage qw cw \<and> coverage qw cw \<le> 1"
  using matched_words_le_query [of qw cw] by (simp add: coverage_def divide_le_eq)

lemma density_range: "0 \<le> density qw cw \<and> density qw cw \<le> 1"
  using matched_words_le_cmd [of qw cw] by (simp add: density_def divide_le_eq)

lemma combined_score_le_1:
  "l \<le> 1 \<Longrightarrow> c \<le> 1 \<Longrightarrow> d \<le> 1 \<Longrightarrow> combined_score l c d \<le> 1"
  by (simp add: combined_score_def)

section \<open>The scoring loop and the result list\<close>

lemma score_candidates_score_ok:
  "score_candidates self qw h cands = Inr h' \<Longrightarrow> list_all score_ok h \<Longrightarrow> list_all score_ok h'"
proof (induction cands arbitrary: h)
  case Nil
  then show ?case by simp
next
  case (Cons idx rest)
  from Cons.prems(1) have inb: "idx < length (command_keywords self)"
    by (simp split: if_splits)
  let ?cw = "command_keywords self ! idx"
  from Cons.prems(1) inb obtain lm_score where a: "analyze_with_lm self qw ?cw = Inr lm_score"
    by (auto simp: Let_def split: sum.splits)
  show ?case
  proof (cases lm_score)
    case None
    with Cons.prems(1) inb a have "score_candidates self qw h rest = Inr h'"
      by (simp add: Let_def)
    from Cons.IH [OF this Cons.prems(2)] show ?thesis .
  next
    case (Some l)
    let ?score = "combined_score l (coverage qw ?cw) (density qw ?cw)"
    let ?h = "if ?score > 0.3 then heappush h (- ?score, idx) else h"
    have rest: "score_candidates self qw ?h rest = Inr h'"
      using Cons.prems(1) inb a Some by (simp add: Let_def)
    have "?score \<le> 1"
      using analyze_with_lm_le_1 [OF a [unfolded Some]] coverage_range [of qw ?cw]
        density_range [of qw ?cw]
      by (intro combined_score_le_1) auto
    then have "list_all score_ok ?h"
      using Cons.prems(2) by (auto simp: list_all_iff heappush_set score_ok_def)
    then show ?thesis using Cons.IH [OF rest] by simp
  qed
qed

lemma top_results_scores:
  "top_results commands xs = Inr res \<Longrightarrow> map snd res = map (\<lambda>e. - fst e) xs"
proof (induction xs arbitrary: res)
  case Nil
  then show ?case by simp
next
  case (Cons e xs)
  obtain ns i where e: "e = (ns, i)" by (cases e)
  from Cons.prems e obtain res' where "top_results commands xs = Inr res'"
      and "res = (commands ! i, - ns) # res'"
    by (auto split: if_splits sum.splits)
  then show ?case using Cons.IH e by simp
qed

lemma search_scored:
  assumes "search env self q commands = Inr res"
  shows "res = [] \<or> (\<exists>h. list_all score_ok h \<and>
           map snd res = map (\<lambda>e. - fst e) (take 3 (sort_key fst h)))"
proof (cases "res = []")
  case True
  then show ?thesis by simp
next
  case False
  from assms False obtain qw where qw: "correct_words env self (tokenize env q) = Inr qw"
      and ne: "qw \<noteq> []" and ns: "strip q \<noteq> []"
    by (auto simp: search_def split: if_splits sum.splits)
  from assms qw ne ns obtain h where
      h: "score_candidates self qw [] (find_candidates env self [] qw) = Inr h"
      and top: "top_results commands (take 3 (sort_key fst h)) = Inr res"
    by (auto simp: search_def split: sum.splits)
  have "list_all score_ok h"
    using score_candidates_score_ok [OF h] by simp
  then show ?thesis using top_results_scores [OF top] by blast
qed

section \<open>The index builder\<close>

lemma index_words_entries:
  "index_words env wi idx words w = Some s \<Longrightarrow> i \<in> set s \<Longrightarrow>
     (\<exists>s0. wi w = Some s0 \<and> i \<in> set s0) \<or> (i = idx \<and> w \<in> set words)"
proof (induction words arbitrary: wi)
  case Nil
  then show ?case by simp
next
  case (Cons word ws)
  let ?wi = "wi(word \<mapsto> idx_set env ((case wi word of None \<Rightarrow> [] | Some s \<Rightarrow> s) @ [idx]))"
  from Cons.prems have "index_words env ?wi idx ws w = Some s" by simp
  from Cons.IH [OF this Cons.prems(2)]
  show ?case by (cases "wi word") (auto split: if_splits)
qed

lemma index_commands_ok:
  "index_commands env (wi, kws) idx commands = (wi', kws') \<Longrightarrow> idx = length kws \<Longrightarrow>
     index_ok wi kws \<Longrightarrow>
     index_ok wi' kws' \<and>
     kws' = kws @ map (\<lambda>cmd. str_set env (tokenize env (search_text cmd))) commands"
proof (induction commands arbitrary: wi kws idx)
  case Nil
  then show ?case by simp
next
  case (Cons cmd commands)
  let ?words = "tokenize env (search_text cmd)"
  let ?wi = "index_words env wi idx ?words"
  let ?kws = "kws @ [str_set env ?words]"
  have step: "index_commands env (?wi, ?kws) (Suc idx) commands = (wi', kws')"
    using Cons.prems(1) by (simp add: Let_def)
  have ok: "index_ok ?wi ?kws"
    unfolding index_ok_def
  proof (intro allI impI)
    fix w s i
    assume "?wi w = Some s" and "i \<in> set s"
    from index_words_entries [OF this]
    show "i < length ?kws \<and> w \<in> set (?kws ! i)"
      using Cons.prems(2,3) by (auto simp: index_ok_def nth_append)
  qed
  have "Suc idx = length ?kws" using Cons.prems(2) by simp
  from Cons.IH [OF step this ok] show ?case by auto
qed

lemma build_index_ok:
  "index_ok (word_index (build_index env self commands))
            (command_keywords (build_index env self commands))"
  and build_index_keywords:
  "command_keywords (build_index env self commands)
     = map (\<lambda>cmd. str_set env (tokenize env (search_text cmd))) commands"
proof -
  obtain wi kws where ic: "index_commands env (Map.empty, []) 0 commands = (wi, kws)"
    by (cases "index_commands env (Map.empty, []) 0 commands")
  have "index_ok Map.empty []" by (simp add: index_ok_def)
  have "0 = length ([] :: string list list)" by simp
  from index_commands_ok [OF ic this \<open>index_ok Map.empty []\<close>]
  have "index_ok wi kws"
    and "kws = map (\<lambda>cmd. str_set env (tokenize env (search_text cmd))) commands"
    by auto
  then show "index_ok (word_index (build_index env self commands))
            (command_keywords (build_index env self commands))"
    and "command_keywords (build_index env self commands)
     = map (\<lambda>cmd. str_set env (tokenize env (search_text cmd))) commands"
    using ic by (auto simp: build_index_def Let_def)
qed

lemma find_candidates_entries:
  "i \<in> set (find_candidates env self cands qw) \<Longrightarrow>
     i \<in> set cands \<or> (\<exists>w \<in> set qw. \<exists>s. word_index self w = Some s \<and> i \<in> set s)"
proof (induction qw arbitrary: cands)
  case Nil
  then show ?case by simp
next
  case (Cons word ws)
  from Cons.IH [of "idx_set env (cands @ (case word_index self word of None \<Rightarrow> [] | Some s \<Rightarrow> s))"]
    Cons.prems
  show ?case by (auto split: option.splits)
qed

lemma score_candidates_indices:
  "score_candidates self qw h cands = Inr h' \<Longrightarrow> snd ` set h' \<subseteq> snd ` set h \<union> set cands"
proof (induction cands arbitrary: h)
  case Nil
  then show ?case by simp
next
  case (Cons idx rest)
  from Cons.prems have inb: "idx < length (command_keywords self)"
    by (simp split: if_splits)
  let ?cw = "command_keywords self ! idx"
  show ?case
  proof (cases "analyze_with_lm self qw ?cw")
    case (Inl e)
    with Cons.prems inb show ?thesis by (simp add: Let_def)
  next
    case (Inr lm_score)
    show ?thesis
    proof (cases lm_score)
      case None
      with Cons.prems inb Inr have "score_candidates self qw h rest = Inr h'"
        by (simp add: Let_def)
      from Cons.IH [OF this] have "snd ` set h' \<subseteq> snd ` set h \<union> set rest" .
      also have "\<dots> \<subseteq> snd ` set h \<union> set (idx # rest)" by auto
      finally show ?thesis .
    next
      case (Some l)
      let ?score = "combined_score l (coverage qw ?cw) (density qw ?cw)"
      let ?h = "if ?score > 0.3 then heappush h (- ?score, idx) else h"
      have rest: "score_candidates self qw ?h rest = Inr h'"
        using Cons.prems inb Inr Some by (simp add: Let_def)
      have sub: "snd ` set ?h \<subseteq> snd ` set h \<union> {idx}"
        by (auto simp: heappush_set)
      from Cons.IH [OF rest] have "snd ` set h' \<subseteq> snd ` set ?h \<union> set rest" .
      also have "\<dots> \<subseteq> (snd ` set h \<union> {idx}) \<union> set rest"
        using sub by (rule Un_mono) simp
      also have "\<dots> = snd ` set h \<union> set (idx # rest)" by auto
      finally show ?thesis .
    qed
  qed
qed

lemma top_results_records:
  "top_results commands xs = Inr res \<Longrightarrow>
     map fst res = map (\<lambda>e. commands ! snd e) xs \<and> (\<forall>e \<in> set xs. snd e < length commands)"
proof (induction xs arbitrary: res)
  case Nil
  then show ?case by simp
next
  case (Cons e xs)
  obtain ns i where e: "e = (ns, i)" by (cases e)
  from Cons.prems e obtain res' where "top_results commands xs = Inr res'"
      and "res = (commands ! i, - ns) # res'" and "i < length commands"
    by (auto split: if_splits sum.splits)
  then show ?case using Cons.IH e by simp
qed

lemma search_result_candidates:
  assumes "search env self q commands = Inr res"
    and "correct_words env self (tokenize env q) = Inr qw"
    and "(r, s) \<in> set res"
  shows "\<exists>idx \<in> set (find_candidates env self [] qw). idx < length commands \<and> r = commands ! idx"
proof -
  from assms(3) have ne: "res \<noteq> []" by auto
  with assms(1,2) have qne: "qw \<noteq> []" and "strip q \<noteq> []"
    by (auto simp: search_def split: if_splits)
  with assms(1,2) obtain h where
      h: "score_candidates self qw [] (find_candidates env self [] qw) = Inr h"
      and top: "top_results commands (take 3 (sort_key fst h)) = Inr res"
    by (auto simp: search_def split: sum.splits)
  from assms(3) have "r \<in> set (map fst res)" by force
  with top_results_records [OF top] obtain e where e: "e \<in> set (take 3 (sort_key fst h))"
      and r: "r = commands ! snd e" and lt: "snd e < length commands"
    by auto
  from e have "e \<in> set h" by (auto dest: in_set_takeD)
  then have "snd e \<in> set (find_candidates env self [] qw)"
    using score_candidates_indices [OF h] by auto
  then show ?thesis using r lt by blast
qed

lemma coverage_pos:
  assumes "set cw \<inter> set qw \<noteq> {}"
  shows "0 < coverage qw cw"
proof -
  have "0 < card (set qw \<inter> set cw)"
    using assms by (simp add: card_gt_0_iff Int_commute)
  moreover have "qw \<noteq> []" using assms by auto
  ultimately show ?thesis by (simp add: coverage_def matched_words_def)
qed

section \<open>The empty catalog, the vocabulary and blank queries\<close>

lemma tokenize_hello: "tokenize env ''hello'' = [''hello'']"
  by (simp add: string_defs str_set_single)

lemma build_index_empty:
  "all_words (build_index env self []) = []"
  "word_index (build_index env self []) = Map.empty"
  "word_to_idx (build_index env self []) = Map.empty"
  "command_keywords (build_index env self []) = []"
  by (simp_all add: build_index_def)

lemma fuzzy_correction_empty:
  "all_words self = [] \<Longrightarrow> fuzzy_correction env self word = Inl TypeError"
  by (simp add: fuzzy_correction_def extractOne_def)

lemma correct_spelling_empty:
  "correct_spelling env (build_index env self []) word = Inl TypeError"
  by (simp add: correct_spelling_def build_index_empty fuzzy_correction_empty split: option.splits)

lemma build_vocab_set:
  "set (build_vocab env vocab commands)
     = set vocab \<union> (\<Union>cmd \<in> set commands. set (tokenize env (search_text cmd)))"
  by (induction commands arbitrary: vocab) auto

lemma known_words_build_index:
  "known_words (build_index env self commands)
     = known_words self \<union> set (all_words (build_index env self commands))"
  by (simp add: build_index_def Let_def load_words_def split: prod.splits)

lemma all_words_build_index:
  "set (all_words (build_index env self commands))
     = (\<Union>cmd \<in> set commands. set (tokenize env (search_text cmd)))"
  by (simp add: build_index_def Let_def build_vocab_set split: prod.splits)

lemma strip_whitespace:
  assumes "\<forall>c \<in> set query. is_space c"
  shows "strip query = []"
proof -
  have d: "dropWhile is_space query = []" using assms by simp
  show ?thesis unfolding strip_def d by simp
qed

section \<open>The forward pass and its attention weight\<close>

lemma float64_underflow_less_1: "float64_underflow < 1"
  unfolding float64_underflow_def by simp

lemma float64_overflow_greater_1: "1 < float64_overflow"
proof -
  have "(2::real) ^ 970 * 2 \<le> 2 ^ 1024"
    by (simp add: power_increasing flip: power_Suc2)
  moreover have "(1::real) < 2 ^ 970" by simp
  ultimately show ?thesis unfolding float64_overflow_def by linarith
qed

lemma attention_cases:
  "attention s
     = (if float64_underflow < exp s \<and> exp s < float64_overflow then Finite 1 else NaN)"
  by (simp add: attention_def np_exp_def np_sum_scalar_def not_le)

lemma attention_zero: "attention 0 = Finite 1"
  using float64_underflow_less_1 float64_overflow_greater_1 by (simp add: attention_cases)






lemma upt_3: "[0..<3] = [0, Suc 0, 2]"
  by (simp add: eval_nat_numeral upt_rec)







section \<open>Approximate matching\<close>

lemma extractOne_from_best:
  assumes "\<forall>c \<in> set choices. 0 \<le> scorer c \<and> scorer c \<le> 100"
    and "best_so_far scorer result seen"
  shows "best_so_far scorer (extractOne_from scorer result key choices) (seen \<union> set choices)"
  using assms
proof (induction choices arbitrary: result key seen)
  case Nil
  then show ?case by simp
next
  case (Cons choice choices)
  let ?score = "scorer choice"
  let ?result = "if ?score \<ge> (case result of None \<Rightarrow> 0 | Some (_, best, _) \<Rightarrow> best) \<and>
                        (case result of None \<Rightarrow> True | Some (_, best, _) \<Rightarrow> ?score > best)
                 then Some (choice, ?score, key) else result"
  define result' where "result' = ?result"
  have unfold: "extractOne_from scorer result key (choice # choices)
      = (if ?score = 100 then result' else extractOne_from scorer result' (Suc key) choices)"
    by (simp add: Let_def result'_def)
  have range: "0 \<le> ?score" "?score \<le> 100" using Cons.prems(1) by auto
  have step: "best_so_far scorer result' (seen \<union> {choice})"
    unfolding result'_def using Cons.prems(2) range
    by (cases result) (auto simp: best_so_far_def intro: order_trans less_imp_le)
  show ?case
  proof (cases "?score = 100")
    case True
    from step obtain best score k where res: "result' = Some (best, score, k)"
      and b: "best \<in> seen \<union> {choice}" "score = scorer best"
      and m: "\<forall>c \<in> seen \<union> {choice}. scorer c \<le> score"
      by (cases result') (auto simp: best_so_far_def)
    from m True have "100 \<le> score" by auto
    then have "\<forall>c \<in> set choices. scorer c \<le> score"
      using Cons.prems(1) by fastforce
    with b m have "best_so_far scorer (Some (best, score, k)) (seen \<union> set (choice # choices))"
      by (auto simp: best_so_far_def)
    then show ?thesis using True by (simp only: unfold res if_True refl)
  next
    case False
    have "\<forall>c \<in> set choices. 0 \<le> scorer c \<and> scorer c \<le> 100"
      using Cons.prems(1) by simp
    from Cons.IH [OF this step, of "Suc key"] show ?thesis
      using False by (simp only: unfold if_False) (simp add: Un_assoc)
  qed
qed

lemma extractOne_best:
  assumes "choices \<noteq> []"
    and "\<forall>c \<in> set choices. 0 \<le> WRatio env query c \<and> WRatio env query c \<le> 100"
  shows "\<exists>best key. extractOne env query choices = Some (best, WRatio env query best, key)
           \<and> best \<in> set choices
           \<and> (\<forall>c \<in> set choices. WRatio env query c \<le> WRatio env query best)"
proof -
  have "best_so_far (WRatio env query) None {}" by (simp add: best_so_far_def)
  from extractOne_from_best [OF assms(2) this, of 0]
  have b: "best_so_far (WRatio env query) (extractOne env query choices) (set choices)"
    by (simp add: extractOne_def)
  show ?thesis
  proof (cases "extractOne env query choices")
    case None
    with b assms(1) show ?thesis by (simp add: best_so_far_def)
  next
    case (Some r)
    with b show ?thesis by (cases r) (auto simp: best_so_far_def)
  qed
qed

lemma correct_spelling_cascade:
  assumes "all_words self \<noteq> []"
    and "\<forall>c \<in> set (all_words self). 0 \<le> WRatio env word c \<and> WRatio env word c \<le> 100"
  shows "\<exists>best \<in> set (all_words self).
           (\<forall>c \<in> set (all_words self). WRatio env word c \<le> WRatio env word best)
           \<and> correct_spelling env self word =
               Inr (if word \<in> dom (word_to_idx self) then word
                    else case spell_correction env (known_words self) word of
                      Some correction \<Rightarrow>
                        if correction \<noteq> [] \<and> correction \<in> dom (word_to_idx self) then correction
                        else if WRatio env word best > 80 then best else word
                    | None \<Rightarrow> if WRatio env word best > 80 then best else word)"
proof -
  from extractOne_best [OF assms] obtain best key where
      e: "extractOne env word (all_words self) = Some (best, WRatio env word best, key)"
      and b: "best \<in> set (all_words self)"
      and m: "\<forall>c \<in> set (all_words self). WRatio env word c \<le> WRatio env word best"
    by blast
  have "fuzzy_correction env self word = Inr (if WRatio env word best > 80 then best else word)"
    by (simp add: fuzzy_correction_def e)
  then have "correct_spelling env self word =
               Inr (if word \<in> dom (word_to_idx self) then word
                    else case spell_correction env (known_words self) word of
                      Some correction \<Rightarrow>
                        if correction \<noteq> [] \<and> correction \<in> dom (word_to_idx self) then correction
                        else if WRatio env word best > 80 then best else word
                    | None \<Rightarrow> if WRatio env word best > 80 then best else word)"
    by (simp add: correct_spelling_def split: option.splits)
  with b m show ?thesis by blast
qed

section \<open>Evaluation on the small catalog\<close>

lemma str_set_example: "str_set example_env xs = remdups xs"
  by (simp add: str_set_def example_env_def)

lemma idx_set_example: "idx_set example_env xs = remdups xs"
  by (simp add: idx_set_def example_env_def)

lemma example_tokens:
  "map (\<lambda>cmd. tokenize example_env (search_text cmd)) example_catalog
     = [[''scan'', ''network'', ''nmap''], [''scan'', ''network'', ''nmap'']]"
  by (simp add: example_catalog_def string_defs str_set_example)

lemma example_all_words: "all_words example_index = [''scan'', ''network'', ''nmap'']"
  using example_tokens
  by (simp add: example_index_def build_index_def Let_def example_catalog_def str_set_example
      split: prod.splits)

lemma example_command_keywords:
  "command_keywords example_index
     = [[''scan'', ''network'', ''nmap''], [''scan'', ''network'', ''nmap'']]"
  using example_tokens
  by (simp add: example_index_def build_index_def Let_def example_catalog_def str_set_example
      split: prod.splits)

lemma example_word_index:
  "word_index example_index ''network'' = Some [0, 1]"
  using example_tokens
  by (simp add: example_index_def build_index_def Let_def example_catalog_def idx_set_example
      split: prod.splits)

lemma example_word_to_idx:
  "word_to_idx example_index = [''scan'' \<mapsto> 0, ''network'' \<mapsto> 1, ''nmap'' \<mapsto> 2]"
  using example_all_words
  by (simp add: example_index_def build_index_def Let_def eval_nat_numeral split: prod.splits)

lemma example_lm: "lm example_index = Some (MicroLanguageModel_init example_env 3 16)"
  using example_all_words
  by (simp add: example_index_def build_index_def Let_def eval_nat_numeral split: prod.splits)

lemma np_dot_matrix_zero:
  assumes "\<forall>row \<in> set m. \<forall>k < 3. row ! k = 0"
  shows "np_dot_matrix v m = [0, 0, 0]"
proof -
  have z: "sum_list (map2 (\<lambda>x row. x * row ! k) v m) = 0" if "k < 3" for k
  proof -
    have "\<forall>p \<in> set (zip v m). snd p ! k = 0"
      using that assms by (auto dest!: set_zip_rightD)
    then have "map2 (\<lambda>x row. x * row ! k) v m = map (\<lambda>p. 0) (zip v m)"
      by (intro map_cong) auto
    then show ?thesis by (simp only: sum_list_0)
  qed
  show ?thesis by (simp add: np_dot_matrix_def upt_3 z)
qed

lemma np_dot_zero: "\<forall>y \<in> set ys. y = 0 \<Longrightarrow> np_dot xs ys = 0"
  unfolding np_dot_def by (induction xs ys rule: list_induct2') auto

lemma example_forward:
  assumes "ids \<noteq> []"
  shows "forward (MicroLanguageModel_init example_env 3 16) ids
           = Inr (Some [1 / 2, 1 / 2, 1 / 2])"
proof -
  let ?m = "MicroLanguageModel_init example_env 3 16"
  have c: "\<forall>row \<in> set (classifier ?m). \<forall>k < 3. row ! k = 0"
    by (auto simp: MicroLanguageModel_init_def example_env_def)
  have e: "embeddings ?m \<noteq> []"
    by (simp add: MicroLanguageModel_init_def)
  have "\<forall>y \<in> set (attention_weights ?m). y = 0"
    by (auto simp: MicroLanguageModel_init_def example_env_def)
  then have a: "np_dot v (attention_weights ?m) = 0" for v
    by (rule np_dot_zero)
  show ?thesis
    using assms e
    by (simp add: forward_def embedding_rows_def a attention_zero np_dot_matrix_zero [OF c]
        sigmoid_def Let_def)
qed

lemma example_cosine: "cosine [1 / 2, 1 / 2, 1 / 2] [1 / 2, 1 / 2, 1 / 2] = 750000 / 750001"
  by (simp add: cosine_def np_dot_def np_norm_def)

lemma example_query_tokens: "tokenize example_env ''network'' = [''network'']"
  by (simp add: string_defs str_set_example)

lemma example_query_words:
  "correct_words example_env example_index [''network''] = Inr [''network'']"
  by (simp add: correct_spelling_def example_word_to_idx)

lemma example_candidates:
  "find_candidates example_env example_index [] [''network''] = [0, Suc 0]"
  by (simp add: example_word_index idx_set_example)

lemma example_analyze:
  assumes "''network'' \<in> set qw" and "''network'' \<in> set cw"
  shows "analyze_with_lm example_index qw cw = Inr (Some example_lm_score)"
proof -
  have "\<exists>i. word_to_idx example_index ''network'' = Some i"
    by (simp add: example_word_to_idx)
  then have q: "get_word_indices example_index qw \<noteq> []"
      and c: "get_word_indices example_index cw \<noteq> []"
    using assms by (auto simp: get_word_indices_def List.map_filter_def filter_empty_conv)
  show ?thesis
    by (simp add: analyze_with_lm_def Let_def example_lm example_forward [OF q]
        example_forward [OF c] example_cosine example_lm_score_def)
qed

lemma example_score_candidate:
  "cw \<in> set (command_keywords example_index) \<Longrightarrow>
     combined_score example_lm_score (coverage [''network''] cw)
       (density [''network''] cw) = example_score"
  by (auto simp: example_command_keywords example_score_def coverage_def density_def
      matched_words_def)

lemma example_score_gt: "example_score > 0.3"
  by (simp add: example_score_def example_lm_score_def combined_score_def)

lemma example_scored:
  "score_candidates example_index [''network''] [] [0, Suc 0]
     = Inr [(- example_score, 0), (- example_score, Suc 0)]"
proof -
  have k0: "command_keywords example_index ! 0 = [''scan'', ''network'', ''nmap'']"
    and k1: "command_keywords example_index ! Suc 0 = [''scan'', ''network'', ''nmap'']"
    and len: "length (command_keywords example_index) = 2"
    by (simp_all add: example_command_keywords)
  have s0: "combined_score example_lm_score
              (coverage [''network''] [''scan'', ''network'', ''nmap''])
              (density [''network''] [''scan'', ''network'', ''nmap'']) = example_score"
    by (rule example_score_candidate) (simp add: example_command_keywords)
  have h1: "heappush [] (- example_score, 0::nat) = [(- example_score, 0)]"
    by (simp add: heappush_def siftdown.simps)
  have h2: "heappush [(- example_score, 0::nat)] (- example_score, Suc 0)
              = [(- example_score, 0), (- example_score, Suc 0)]"
    by (simp add: heappush_def siftdown.simps tuple_less_def)
  show ?thesis
    using example_score_gt
    by (simp add: k0 k1 len example_analyze s0 h1 h2 Let_def)
qed

lemma example_search:
  "search example_env example_index ''network'' example_catalog
     = Inr [(example_catalog ! 0, example_score), (example_catalog ! Suc 0, example_score)]"
proof -
  have s: "strip ''network'' \<noteq> []"
    by (simp add: strip_def is_space_def)
  have t: "top_results example_catalog [(- example_score, 0), (- example_score, Suc 0)]
             = Inr [(example_catalog ! 0, example_score), (example_catalog ! Suc 0, example_score)]"
    by (simp add: example_catalog_def)
  show ?thesis
    by (simp add: search_def s example_query_tokens example_query_words example_candidates
        example_scored t del: top_results.simps correct_words.simps find_candidates.simps
          score_candidates.simps)
qed

lemma example_known_words: "known_words example_index = {''scan'', ''network'', ''nmap''}"
proof -
  have "known_words example_index
          = known_words (CommandSearcher_init {}) \<union> set (all_words example_index)"
    unfolding example_index_def by (rule known_words_build_index)
  then show ?thesis by (simp add: example_all_words CommandSearcher_init_def)
qed

lemma example_typo_tokens: "tokenize example_env ''netowrk network'' = [''netowrk'', ''network'']"
  by (simp add: string_defs str_set_example)

lemma example_typo_word:
  "correct_spelling example_env example_index ''netowrk'' = Inr ''network''"
  by (simp add: correct_spelling_def example_word_to_idx example_known_words example_env_def)

lemma example_word:
  "correct_spelling example_env example_index ''network'' = Inr ''network''"
  by (simp add: correct_spelling_def example_word_to_idx)

lemma example_typo_words:
  "correct_words example_env example_index [''netowrk'', ''network''] = Inr [''network'', ''network'']"
  by (simp add: example_typo_word example_word)

lemma example_typo_candidates:
  "find_candidates example_env example_index [] [''network'', ''network''] = [0, Suc 0]"
  by (simp add: example_word_index idx_set_example)

lemma example_typo_score_gt: "example_typo_score > 0.3"
  by (simp add: example_typo_score_def example_lm_score_def combined_score_def)

lemma example_typo_score_less: "example_typo_score < example_score"
  by (simp add: example_typo_score_def example_score_def combined_score_def)

lemma example_typo_scored:
  "score_candidates example_index [''network'', ''network''] [] [0, Suc 0]
     = Inr [(- example_typo_score, 0), (- example_typo_score, Suc 0)]"
proof -
  have k0: "command_keywords example_index ! 0 = [''scan'', ''network'', ''nmap'']"
    and k1: "command_keywords example_index ! Suc 0 = [''scan'', ''network'', ''nmap'']"
    and len: "length (command_keywords example_index) = 2"
    by (simp_all add: example_command_keywords)
  have s0: "combined_score example_lm_score
              (coverage [''network'', ''network''] [''scan'', ''network'', ''nmap''])
              (density [''network'', ''network''] [''scan'', ''network'', ''nmap''])
            = example_typo_score"
    by (simp add: example_typo_score_def coverage_def density_def matched_words_def)
  have h1: "heappush [] (- example_typo_score, 0::nat) = [(- example_typo_score, 0)]"
    by (simp add: heappush_def siftdown.simps)
  have h2: "heappush [(- example_typo_score, 0::nat)] (- example_typo_score, Suc 0)
              = [(- example_typo_score, 0), (- example_typo_score, Suc 0)]"
    by (simp add: heappush_def siftdown.simps tuple_less_def)
  show ?thesis
    using example_typo_score_gt
    by (simp add: k0 k1 len example_analyze s0 h1 h2 Let_def)
qed

lemma example_typo_search:
  "search example_env example_index ''netowrk network'' example_catalog
     = Inr [(example_catalog ! 0, example_typo_score),
            (example_catalog ! Suc 0, example_typo_score)]"
proof -
  have s: "strip ''netowrk network'' \<noteq> []"
    by (simp add: strip_def is_space_def)
  have t: "top_results example_catalog
             [(- example_typo_score, 0), (- example_typo_score, Suc 0)]
             = Inr [(example_catalog ! 0, example_typo_score),
                    (example_catalog ! Suc 0, example_typo_score)]"
    by (simp add: example_catalog_def)
  show ?thesis
    by (simp add: search_def s example_typo_tokens example_typo_words example_typo_candidates
        example_typo_scored t del: top_results.simps correct_words.simps find_candidates.simps
          score_candidates.simps)
qed

section \<open>Searches that return\<close>

lemma correct_words_returns:
  assumes "all_words self \<noteq> []"
    and "\<forall>w c. 0 \<le> WRatio env w c \<and> WRatio env w c \<le> 100"
  shows "\<exists>qw. correct_words env self ws = Inr qw"
proof (induction ws)
  case Nil
  then show ?case by simp
next
  case (Cons word ws)
  from correct_spelling_cascade [OF assms(1), of env word] assms(2)
  obtain corrected where "correct_spelling env self word = Inr corrected"
    by blast
  with Cons show ?case by auto
qed

lemma forward_returns: "embeddings m \<noteq> [] \<Longrightarrow> \<exists>v. forward m ids = Inr v"
  by (simp add: forward_def embedding_rows_def Let_def split: float64.splits)

lemma build_index_lm:
  "lm (build_index env self commands)
     = Some (MicroLanguageModel_init env (length (all_words (build_index env self commands))) 16)"
  by (simp add: build_index_def Let_def split: prod.splits)

lemma analyze_with_lm_returns:
  assumes "all_words (build_index env self commands) \<noteq> []"
  shows "\<exists>l. analyze_with_lm (build_index env self commands) qw cw = Inr l"
proof -
  let ?m = "MicroLanguageModel_init env (length (all_words (build_index env self commands))) 16"
  have "embeddings ?m \<noteq> []" using assms by (simp add: MicroLanguageModel_init_def)
  from forward_returns [OF this]
  obtain u v where "forward ?m (get_word_indices (build_index env self commands) qw) = Inr u"
    and "forward ?m (get_word_indices (build_index env self commands) cw) = Inr v"
    by blast
  then show ?thesis
    by (cases u; cases v) (simp_all add: analyze_with_lm_def Let_def build_index_lm)
qed

lemma score_candidates_returns:
  assumes "\<And>cw. \<exists>l. analyze_with_lm self qw cw = Inr l"
    and "\<forall>idx \<in> set cands. idx < length (command_keywords self)"
  shows "\<exists>h'. score_candidates self qw h cands = Inr h'"
  using assms(2)
proof (induction cands arbitrary: h)
  case Nil
  then show ?case by simp
next
  case (Cons idx rest)
  from assms(1) obtain l where "analyze_with_lm self qw (command_keywords self ! idx) = Inr l"
    by blast
  with Cons show ?case by (cases l) (simp_all add: Let_def)
qed

lemma top_results_returns:
  "\<forall>e \<in> set xs. snd e < length commands \<Longrightarrow> \<exists>res. top_results commands xs = Inr res"
proof (induction xs)
  case Nil
  then show ?case by simp
next
  case (Cons e xs)
  then show ?case by (cases e) auto
qed

lemma search_returns:
  assumes "all_words (build_index env self0 commands) \<noteq> []"
    and "\<forall>w c. 0 \<le> WRatio env w c \<and> WRatio env w c \<le> 100"
  shows "\<exists>res. search env (build_index env self0 commands) query commands = Inr res"
proof -
  let ?self = "build_index env self0 commands"
  from correct_words_returns [OF assms] obtain qw
    where qw: "correct_words env ?self (tokenize env query) = Inr qw"
    by blast
  let ?cands = "find_candidates env ?self [] qw"
  have len: "length (command_keywords ?self) = length commands"
    by (simp add: build_index_keywords)
  have inb: "\<forall>idx \<in> set ?cands. idx < length (command_keywords ?self)"
  proof
    fix idx assume "idx \<in> set ?cands"
    from find_candidates_entries [OF this] obtain w s
      where "word_index ?self w = Some s" and "idx \<in> set s"
      by auto
    with build_index_ok [of env self0 commands]
    show "idx < length (command_keywords ?self)" by (auto simp: index_ok_def)
  qed
  from score_candidates_returns [OF analyze_with_lm_returns [OF assms(1)] inb]
  obtain h where h: "score_candidates ?self qw [] ?cands = Inr h"
    by blast
  have "\<forall>e \<in> set (take 3 (sort_key fst h)). snd e < length commands"
  proof
    fix e assume "e \<in> set (take 3 (sort_key fst h))"
    then have "e \<in> set h" by (auto dest: in_set_takeD)
    then have "snd e \<in> set ?cands"
      using score_candidates_indices [OF h] by auto
    with inb len show "snd e < length commands" by auto
  qed
  from top_results_returns [OF this] obtain res
    where "top_results commands (take 3 (sort_key fst h)) = Inr res"
    by blast
  with qw h show ?thesis by (auto simp: search_def)
qed

section \<open>The claims of the specification\<close>

subsection \<open>C1: searching after an empty catalog\<close>

text \<open>
  Claim C1 says that \<open>search\<close> never raises on a text query, and that after
  \<open>build_index\<close> on an empty catalog the vocabulary is empty, the inverted index has no
  entry and every search returns no result. The first two hold. The third does not: the
  query \<^verbatim>\<open>hello\<close> has one token, the token is not in the empty vocabulary, no correction
  of it is, and \<open>extractOne\<close> has no choice to return, so that the unpacking in
  \<open>correct_spelling\<close> raises \<^verbatim>\<open>TypeError\<close>, for every behaviour of the libraries.
\<close>

theorem search_empty_catalog_raises:
  "all_words (build_index env self []) = []
   \<and> word_index (build_index env self []) = Map.empty
   \<and> search env (build_index env self []) ''hello'' [] = Inl TypeError"
proof -
  have "strip ''hello'' \<noteq> []" by (simp add: strip_def is_space_def)
  then show ?thesis
    by (simp add: search_def tokenize_hello correct_spelling_empty build_index_empty)
qed

text \<open>
  The defect is confined to the empty vocabulary: with a vocabulary that is not empty and
  similarities between 0 and 100, a search on the catalog the index was built from
  returns (lemma \<open>search_returns\<close>).
\<close>

subsection \<open>C2: the known words of the spelling dictionary\<close>

text \<open>
  Claim C2 says that after \<open>build_index\<close> the known words of the spelling dictionary are
  exactly the vocabulary of the catalog. They are not: \<open>load_words\<close> adds to the words
  already known. After an index on the small catalog and then one on the empty catalog,
  the vocabulary is empty and three words are still known.
\<close>

theorem build_index_known_words_counterexample:
  "known_words (build_index example_env example_index [])
     \<noteq> set (all_words (build_index example_env example_index []))"
  by (simp add: known_words_build_index [of example_env example_index] build_index_empty
      example_known_words)

text \<open>
  Claim C2 as amended: after \<open>build_index\<close> the known words are the words known before
  together with the vocabulary, and the vocabulary is the set of the tokens of the
  commands of the catalog.
\<close>

theorem build_index_known_words:
  "known_words (build_index env self commands)
     = known_words self \<union> (\<Union>cmd \<in> set commands. set (tokenize env (search_text cmd)))
   \<and> set (all_words (build_index env self commands))
     = (\<Union>cmd \<in> set commands. set (tokenize env (search_text cmd)))"
  by (simp add: known_words_build_index all_words_build_index)

theorem build_index_known_words_witness:
  "known_words (build_index example_env (CommandSearcher_init {}) example_catalog)
     = {''scan'', ''network'', ''nmap''}
   \<and> set (all_words (build_index example_env (CommandSearcher_init {}) example_catalog))
     = {''scan'', ''network'', ''nmap''}"
proof -
  have "(\<Union>cmd \<in> set example_catalog. set (tokenize example_env (search_text cmd)))
          = \<Union> (set (map set (map (\<lambda>cmd. tokenize example_env (search_text cmd)) example_catalog)))"
    by simp
  also have "\<dots> = {''scan'', ''network'', ''nmap''}"
    unfolding example_tokens by auto
  finally show ?thesis
    using build_index_known_words [of example_env "CommandSearcher_init {}" example_catalog]
    by (simp add: CommandSearcher_init_def)
qed

subsection \<open>C3: the range of the scores\<close>

text \<open>
  Claim C3: every score returned by \<open>search\<close> is greater than 0.3 and at most 1. The lower
  bound is the threshold of the scoring loop; the upper bound holds because the cosine
  is at most 1 and the coverage and the density are ratios of a part to a whole.
\<close>

theorem search_score_bounds:
  assumes "search env self q commands = Inr res" and "(r, s) \<in> set res"
  shows "3 / 10 < s \<and> s \<le> 1"
proof -
  from assms(2) have "res \<noteq> []" by auto
  with search_scored [OF assms(1)] obtain h where h: "list_all score_ok h"
      and m: "map snd res = map (\<lambda>e. - fst e) (take 3 (sort_key fst h))"
    by blast
  from assms(2) have "s \<in> set (map snd res)" by force
  with m obtain e where "e \<in> set (take 3 (sort_key fst h))" and s: "s = - fst e"
    by auto
  then have "e \<in> set h" by (auto dest: in_set_takeD)
  with h have "score_ok e" by (simp add: list_all_iff)
  then show ?thesis using s by (simp add: score_ok_def)
qed

theorem search_score_bounds_witness:
  "search example_env example_index ''network'' example_catalog
     = Inr [(example_catalog ! 0, example_score), (example_catalog ! Suc 0, example_score)]
   \<and> (example_catalog ! 0, example_score)
       \<in> set [(example_catalog ! 0, example_score), (example_catalog ! Suc 0, example_score)]
   \<and> 3 / 10 < example_score \<and> example_score \<le> 1"
  using search_score_bounds [OF example_search, of "example_catalog ! 0" example_score]
    example_search
  by simp

subsection \<open>C4: at most three results, by descending score\<close>

text \<open>
  Claim C4 says that the result has at most three entries and is sorted strictly by
  descending score. Read as strictly decreasing scores it fails: the two commands of the
  small catalog have the same keywords, so the query \<^verbatim>\<open>network\<close> returns both with the
  same score.
\<close>

theorem search_strictly_sorted_counterexample:
  "search example_env example_index ''network'' example_catalog
     = Inr [(example_catalog ! 0, example_score), (example_catalog ! Suc 0, example_score)]
   \<and> \<not> strictly_descending
        (map snd [(example_catalog ! 0, example_score), (example_catalog ! Suc 0, example_score)])"
  using example_search by (simp add: strictly_descending_def)

text \<open>
  Claim C4 as amended: the result has at most three entries and its scores never
  increase from one entry to the next (equal scores are possible).
\<close>

theorem search_top_k:
  assumes "search env self q commands = Inr res"
  shows "length res \<le> 3 \<and> descending (map snd res)"
proof (cases "res = []")
  case True
  then show ?thesis by (simp add: descending_def)
next
  case False
  with search_scored [OF assms] obtain h where h: "list_all score_ok h"
      and m: "map snd res = map (\<lambda>e. - fst e) (take 3 (sort_key fst h))"
    by blast
  have "length res = length (map snd res)" by simp
  also have "\<dots> \<le> 3" unfolding m by simp
  finally have len: "length res \<le> 3" .
  have "sorted (map fst (sort_key fst h))" by (rule sorted_sort_key)
  then have "sorted (take 3 (map fst (sort_key fst h)))" by (rule sorted_wrt_take)
  then have "sorted (map fst (take 3 (sort_key fst h)))" by (simp add: take_map)
  then have "sorted_wrt (\<lambda>a b. a \<ge> b) (map (\<lambda>e. - fst e) (take 3 (sort_key fst h)))"
    by (simp add: sorted_wrt_map sorted_map)
  then show ?thesis using len m by (simp add: descending_def)
qed

theorem search_top_k_witness:
  "search example_env example_index ''network'' example_catalog
     = Inr [(example_catalog ! 0, example_score), (example_catalog ! Suc 0, example_score)]
   \<and> length [(example_catalog ! 0, example_score), (example_catalog ! Suc 0, example_score)] \<le> 3
   \<and> descending
        (map snd [(example_catalog ! 0, example_score), (example_catalog ! Suc 0, example_score)])"
  using search_top_k [OF example_search] example_search
  by simp

subsection \<open>C5: returned records share a token with the query\<close>

text \<open>
  Claim C5: when the index was built from the catalog that is searched, every candidate
  position has a keyword set that meets the corrected query tokens, and every returned
  record has keywords that meet them, with a coverage above 0. A command without a token
  in common with the corrected query is therefore neither a candidate nor returned.
\<close>

theorem search_results_overlap:
  assumes "search env (build_index env self0 commands) q commands = Inr res"
    and "correct_words env (build_index env self0 commands) (tokenize env q) = Inr qw"
  shows "(\<forall>idx \<in> set (find_candidates env (build_index env self0 commands) [] qw).
            set (command_keywords (build_index env self0 commands) ! idx) \<inter> set qw \<noteq> {})
       \<and> (\<forall>(r, s) \<in> set res.
            set (tokenize env (search_text r)) \<inter> set qw \<noteq> {}
            \<and> 0 < coverage qw (tokenize env (search_text r)))"
proof -
  let ?self = "build_index env self0 commands"
  have cand: "idx < length commands \<and> set (command_keywords ?self ! idx) \<inter> set qw \<noteq> {}
      \<and> set (command_keywords ?self ! idx) = set (tokenize env (search_text (commands ! idx)))"
    if "idx \<in> set (find_candidates env ?self [] qw)" for idx
  proof -
    from find_candidates_entries [OF that] obtain w s where w: "w \<in> set qw"
        and s: "word_index ?self w = Some s" and i: "idx \<in> set s"
      by auto
    from build_index_ok [of env self0 commands] s i
    have "idx < length (command_keywords ?self)" and "w \<in> set (command_keywords ?self ! idx)"
      by (auto simp: index_ok_def)
    then show ?thesis using w by (auto simp: build_index_keywords)
  qed
  have "set (tokenize env (search_text r)) \<inter> set qw \<noteq> {}
          \<and> 0 < coverage qw (tokenize env (search_text r))"
    if "(r, s) \<in> set res" for r s
  proof -
    from search_result_candidates [OF assms that] obtain idx
      where "idx \<in> set (find_candidates env ?self [] qw)" and r: "r = commands ! idx"
      by blast
    from cand [OF this(1)] r have "set (tokenize env (search_text r)) \<inter> set qw \<noteq> {}"
      by blast
    then show ?thesis using coverage_pos by blast
  qed
  then show ?thesis using cand by blast
qed

theorem search_results_overlap_witness:
  "search example_env (build_index example_env (CommandSearcher_init {}) example_catalog)
      ''network'' example_catalog
     = Inr [(example_catalog ! 0, example_score), (example_catalog ! Suc 0, example_score)]
   \<and> correct_words example_env (build_index example_env (CommandSearcher_init {}) example_catalog)
       (tokenize example_env ''network'') = Inr [''network'']
   \<and> set (command_keywords (build_index example_env (CommandSearcher_init {}) example_catalog) ! 0)
         \<inter> set [''network''] \<noteq> {}
   \<and> set (tokenize example_env (search_text (example_catalog ! 0))) \<inter> set [''network''] \<noteq> {}
   \<and> 0 < coverage [''network''] (tokenize example_env (search_text (example_catalog ! 0)))"
proof -
  have s: "search example_env (build_index example_env (CommandSearcher_init {}) example_catalog)
      ''network'' example_catalog
     = Inr [(example_catalog ! 0, example_score), (example_catalog ! Suc 0, example_score)]"
    using example_search by (simp only: example_index_def)
  have w: "correct_words example_env
       (build_index example_env (CommandSearcher_init {}) example_catalog)
       (tokenize example_env ''network'') = Inr [''network'']"
    using example_query_words by (simp only: example_index_def example_query_tokens)
  have c: "0 \<in> set (find_candidates example_env
       (build_index example_env (CommandSearcher_init {}) example_catalog) [] [''network''])"
    using example_candidates by (simp add: example_index_def)
  have r: "(example_catalog ! 0, example_score)
       \<in> set [(example_catalog ! 0, example_score), (example_catalog ! Suc 0, example_score)]"
    by simp
  from search_results_overlap [OF s w] c r show ?thesis
    using s w by blast
qed

subsection \<open>C6: the coverage feature\<close>

text \<open>
  Claim C6 says that the coverage is the number of distinct corrected query tokens in the
  keyword set over the number of distinct corrected query tokens. The source takes the
  numerator from \<^verbatim>\<open>set(query_words)\<close> and the denominator from the list \<^verbatim>\<open>query_words\<close>,
  in which two tokens corrected to one word stand twice. The query \<^verbatim>\<open>netowrk network\<close>
  gives the list \<^verbatim>\<open>network\<close>, \<^verbatim>\<open>network\<close>: every token of the query is a keyword of the
  first command, the claim gives a coverage of 1, the source one half, and \<open>search\<close>
  returns the two commands with a score below the one the query \<^verbatim>\<open>network\<close> gets.
\<close>

theorem search_duplicate_tokens_coverage:
  "correct_words example_env example_index (tokenize example_env ''netowrk network'')
      = Inr [''network'', ''network'']
   \<and> coverage [''network'', ''network''] (command_keywords example_index ! 0) = 1 / 2
   \<and> coverage_spec [''network'', ''network''] (command_keywords example_index ! 0) = 1
   \<and> search example_env example_index ''netowrk network'' example_catalog
       = Inr [(example_catalog ! 0, example_typo_score),
              (example_catalog ! Suc 0, example_typo_score)]
   \<and> search example_env example_index ''network'' example_catalog
       = Inr [(example_catalog ! 0, example_score), (example_catalog ! Suc 0, example_score)]
   \<and> example_typo_score < example_score"
proof -
  have "correct_words example_env example_index (tokenize example_env ''netowrk network'')
          = Inr [''network'', ''network'']"
    by (simp only: example_typo_tokens example_typo_words)
  moreover have "coverage [''network'', ''network''] (command_keywords example_index ! 0) = 1 / 2"
    by (simp add: example_command_keywords coverage_def matched_words_def)
  moreover have "coverage_spec [''network'', ''network''] (command_keywords example_index ! 0) = 1"
    by (simp add: example_command_keywords coverage_spec_def)
  ultimately show ?thesis
    using example_typo_search example_search example_typo_score_less by blast
qed

subsection \<open>C7: spelling correction\<close>

text \<open>
  Claim C7 describes the cascade of \<open>correct_spelling\<close> and ends with: the original token
  is returned when no approximate match has a similarity above 80. With an empty
  vocabulary there is no match at all and the source raises \<^verbatim>\<open>TypeError\<close> instead of
  returning the token (the defect of C1). With a vocabulary that is not empty the cascade
  is the one of the claim: lemma \<open>correct_spelling_cascade\<close>.
\<close>

theorem correct_spelling_empty_vocabulary_raises:
  "word_to_idx (build_index env self []) ''hello'' = None
   \<and> all_words (build_index env self []) = []
   \<and> correct_spelling env (build_index env self []) ''hello'' = Inl TypeError"
  by (simp add: correct_spelling_empty build_index_empty)

subsection \<open>C8: blank queries\<close>

text \<open>
  Claim C8: a query that is empty or made of whitespace only returns the empty list, in
  every state of the searcher and without an error.
\<close>

theorem search_blank_query:
  "\<forall>c \<in> set query. is_space c \<Longrightarrow> search env self query commands = Inr []"
  by (simp add: search_def strip_whitespace)

theorem search_blank_query_witness:
  "list_all is_space ''   ''
   \<and> search example_env example_index ''   '' example_catalog = Inr []
   \<and> search example_env example_index '''' example_catalog = Inr []"
proof -
  have a: "\<forall>c \<in> set ''   ''. is_space c" by (simp add: is_space_def)
  have b: "\<forall>c \<in> set ''''. is_space c" by simp
  show ?thesis
    using a search_blank_query [OF a, of example_env example_index example_catalog]
      search_blank_query [OF b, of example_env example_index example_catalog]
    by (simp add: list_all_iff)
qed

subsection \<open>C9: the forward pass on no token\<close>

text \<open>
  Claim C9 says that \<open>forward\<close> on the empty list returns three times one third. The
  source returns three times the constant 0.33.
\<close>

theorem forward_empty_counterexample:
  "forward (MicroLanguageModel_init example_env 3 16) [] \<noteq> Inr (Some [1 / 3, 1 / 3, 1 / 3])"
  by (simp add: forward_def)

text \<open>
  Claim C9 as amended: \<open>forward\<close> on the empty list returns the vector whose three
  components are 0.33, for every model.
\<close>

theorem forward_empty: "forward m [] = Inr (Some [33 / 100, 33 / 100, 33 / 100])"
  by (simp add: forward_def)

subsection \<open>C10: the attention stage\<close>




end
